theory Spec2Isabelle
  imports Main "HOL-Library.Word"
begin

unbundle bit_operations_syntax

section \<open>Writers (multiwriter.go)\<close>

text \<open>
  A value of Go's interface type \<open>io.Writer\<close> that is not nil. The package tells writers
  apart in two ways only: by the type assertion of \<open>w\<close> to \<open>*multiWriter\<close> and by comparing
  with \<open>os.Stdout\<close>, so a writer is one of
  \<^item> \<open>Stdout\<close>: the file \<open>os.Stdout\<close> (an \<open>io.Closer\<close>);
  \<^item> \<open>Sink n\<close>: some other writer, named by \<open>n\<close>, that is not an \<open>io.Closer\<close>;
  \<^item> \<open>ClosableSink n\<close>: some other writer that is also an \<open>io.Closer\<close>;
  \<^item> \<open>IoMultiWriter ws\<close>: the value the standard library's \<open>io.MultiWriter(ws...)\<close> returns;
  \<^item> \<open>multiWriter ws\<close>: a pointer to this package's struct \<open>multiWriter{writers: ws}\<close>.
  Go's nil interface value is \<open>None\<close> of \<open>Writer option\<close>, where the code tests for it.
  The writers that callers hand to the package are taken to be non-nil and their \<open>Write\<close>
  to return: a nil writer and a \<open>Write\<close> that panics are not modelled. The code compares
  writers with nil and with \<open>os.Stdout\<close> only, where equality of these values is Go's
  comparison of interface values.
  A Go byte slice is a \<open>string\<close> here: a list of 8-bit characters.
\<close>

datatype Writer =
    Stdout
  | Sink nat
  | ClosableSink nat
  | IoMultiWriter "Writer list"
  | multiWriter "Writer list"

datatype error = NotInitializedErr | InitializedErr | WriteErr string

type_synonym bytes = string

text \<open>The pair \<open>(n int, err error)\<close> that a \<open>Write\<close> returns.\<close>

type_synonym write_result = "nat \<times> error option"

text \<open>
  The journal lists, in order, the \<open>Write\<close> calls received by writers that are not
  a \<open>*multiWriter\<close>. What such a writer returns is up to the environment: \<open>sinks\<close> gives
  the result of each call from the history so far, the writer and the bytes, so a sink may
  fail always, never, or from some call on.
\<close>

type_synonym journal = "(Writer \<times> bytes) list"

type_synonym sinks = "journal \<Rightarrow> Writer \<Rightarrow> bytes \<Rightarrow> write_result"

text \<open>The type assertion of \<open>w\<close> to \<open>*multiWriter\<close> in \<open>MultiWriter\<close>: its result \<open>ok\<close>.\<close>

fun is_multiWriter :: "Writer \<Rightarrow> bool" where
  "is_multiWriter (multiWriter ws) = True"
| "is_multiWriter w = False"

text \<open>
  \<open>Write env w p j\<close> is the call \<open>w.Write(p)\<close> made with journal \<open>j\<close>: its result and the
  journal after it. For a \<open>*multiWriter\<close> it is the method of multiwriter.go, whose loop
  \<open>for _, w := range t.writers { w.Write(p) }\<close> is \<open>Write_range\<close>: the result of each
  inner call is dropped, then \<open>n = len(p)\<close> and \<open>err\<close> keeps its zero value nil.
\<close>

fun Write :: "sinks \<Rightarrow> Writer \<Rightarrow> bytes \<Rightarrow> journal \<Rightarrow> write_result \<times> journal"
  and Write_range :: "sinks \<Rightarrow> Writer list \<Rightarrow> bytes \<Rightarrow> journal \<Rightarrow> journal"
where
  "Write env (multiWriter ws) p j = ((length p, None), Write_range env ws p j)"
| "Write env Stdout p j = (env j Stdout p, j @ [(Stdout, p)])"
| "Write env (Sink n) p j = (env j (Sink n) p, j @ [(Sink n, p)])"
| "Write env (ClosableSink n) p j = (env j (ClosableSink n) p, j @ [(ClosableSink n, p)])"
| "Write env (IoMultiWriter ws) p j = (env j (IoMultiWriter ws) p, j @ [(IoMultiWriter ws, p)])"
| "Write_range env [] p j = j"
| "Write_range env (w # ws) p j = Write_range env ws p (snd (Write env w p j))"

text \<open>
  \<open>MultiWriter(writers...)\<close>: \<open>MultiWriter_loop\<close> is its loop over \<open>writers\<close>, with the
  slice \<open>allWriters\<close> built so far as first argument.
\<close>

fun MultiWriter_loop :: "Writer list \<Rightarrow> Writer list \<Rightarrow> Writer list" where
  "MultiWriter_loop allWriters [] = allWriters"
| "MultiWriter_loop allWriters (w # writers) =
     (case w of
        multiWriter mws \<Rightarrow> MultiWriter_loop (allWriters @ mws) writers
      | _ \<Rightarrow> MultiWriter_loop (allWriters @ [w]) writers)"

definition MultiWriter :: "Writer list \<Rightarrow> Writer" where
  "MultiWriter writers = multiWriter (MultiWriter_loop [] writers)"

text \<open>
  The writers a caller can hand to \<open>MultiWriter\<close>: a writer that is not a \<open>*multiWriter\<close>
  (a leaf), or the result of an earlier \<open>MultiWriter\<close> call on such writers, to any depth.
\<close>

inductive composed :: "Writer \<Rightarrow> bool" where
  leaf: "\<not> is_multiWriter w \<Longrightarrow> composed w"
| fan: "(\<forall>w \<in> set ws. composed w) \<Longrightarrow> composed (MultiWriter ws)"

text \<open>
  What \<open>MultiWriter\<close> appends for one input: the \<open>writers\<close> field of a \<open>*multiWriter\<close>,
  the writer itself otherwise.
\<close>

fun children :: "Writer \<Rightarrow> Writer list" where
  "children (multiWriter mws) = mws"
| "children w = [w]"

text \<open>The leaf writers below a writer, in order, through every level of fan-out.\<close>

fun leaves :: "Writer \<Rightarrow> Writer list" where
  "leaves (multiWriter ws) = concat (map leaves ws)"
| "leaves w = [w]"

section \<open>The logger (logz.go)\<close>

text \<open>\<open>type LogLevel byte\<close>, with the five constants numbered by \<open>iota\<close>.\<close>

type_synonym LogLevel = "8 word"

abbreviation LogLevelTrace :: LogLevel where "LogLevelTrace \<equiv> 0"
abbreviation LogLevelInfo :: LogLevel where "LogLevelInfo \<equiv> 1"
abbreviation LogLevelWarning :: LogLevel where "LogLevelWarning \<equiv> 2"
abbreviation LogLevelError :: LogLevel where "LogLevelError \<equiv> 3"
abbreviation LogLevelCritical :: LogLevel where "LogLevelCritical \<equiv> 4"

text \<open>
  A \<open>*log.Logger\<close> that is not nil holds what \<open>log.New(w, prefix, flags)\<close> was given;
  the nil pointer is \<open>None\<close> of \<open>Logger option\<close>.
\<close>

record Logger =
  l_out :: Writer
  l_prefix :: string
  l_flags :: int

text \<open>
  The package-level variables. At process start each has its zero value. The variable
  \<open>write\<close> is the field \<open>write_var\<close>.
\<close>

record Globals =
  initialized :: bool
  lTrace :: "Logger option"
  lInfo :: "Logger option"
  lWarning :: "Logger option"
  lError :: "Logger option"
  lCritical :: "Logger option"
  logStack :: LogLevel
  write_var :: "Writer option"

definition process_start :: Globals where
  "process_start =
     \<lparr>initialized = False, lTrace = None, lInfo = None, lWarning = None, lError = None,
      lCritical = None, logStack = 0, write_var = None\<rparr>"

text \<open>
  What a call does besides returning: the calls it makes on loggers, writers and the
  standard library's default logger, in order.
  \<^item> \<open>LoggerOutput l s\<close>: \<open>l.Output(2, s)\<close>, one line with text \<open>s\<close> written to \<open>l_out l\<close>;
  \<^item> \<open>Fprintln w s\<close>: \<open>fmt.Fprintln(w, s)\<close>, the text \<open>s\<close> and a newline written to \<open>w\<close>;
  \<^item> \<open>LogPrint e\<close>: \<open>log.Print(e)\<close> on the default logger;
  \<^item> \<open>LogPrintln vs\<close>: \<open>log.Println(vs...)\<close> on the default logger;
  \<^item> \<open>CloserClose w\<close>: \<open>Close()\<close> called on the writer \<open>w\<close>, its result dropped.
\<close>

datatype effect =
    LoggerOutput Logger string
  | Fprintln Writer string
  | LogPrint error
  | LogPrintln "string list"
  | CloserClose Writer

text \<open>
  How a call ends: it returns a value, the process exits with a status (\<open>os.Exit\<close>), or it
  panics. A panic value is kept as the text that \<open>%v\<close> prints for it.
\<close>

datatype 'a outcome = Returned 'a | Exited int | Panicked string

text \<open>The flag bits of the standard library's package \<open>log\<close>.\<close>

definition LstdFlags :: int where "LstdFlags = 3"
definition Lshortfile :: int where "Lshortfile = 16"

text \<open>
  The standard library's \<open>io.MultiWriter\<close>: like the \<open>MultiWriter\<close> of this package it
  splices in the writers of an argument of its own result type.
\<close>

definition io_MultiWriter :: "Writer list \<Rightarrow> Writer" where
  "io_MultiWriter writers =
     IoMultiWriter (concat (map (\<lambda>w. case w of IoMultiWriter cs \<Rightarrow> cs | _ \<Rightarrow> [w]) writers))"

text \<open>
  The writers that the bytes written to a writer are passed on to, in order, through both
  kinds of composition.
\<close>

fun reaches :: "Writer \<Rightarrow> Writer list" where
  "reaches (IoMultiWriter ws) = concat (map reaches ws)"
| "reaches (multiWriter ws) = concat (map reaches ws)"
| "reaches w = [w]"

text \<open>
  The type assertion \<open>close, ok := write.(io.Closer)\<close> on a writer that is not nil: the
  second component. On the nil interface the assertion gives false.
\<close>

fun is_Closer :: "Writer \<Rightarrow> bool" where
  "is_Closer Stdout = True"
| "is_Closer (ClosableSink n) = True"
| "is_Closer w = False"

text \<open>Decimal digits of a number, as \<open>%v\<close> prints a \<open>LogLevel\<close>.\<close>

fun decimal :: "nat \<Rightarrow> string" where
  "decimal n =
     (if n < 10 then [''0123456789'' ! n]
      else decimal (n div 10) @ [''0123456789'' ! (n mod 10)])"

declare decimal.simps [simp del]

definition getLogPrefix :: "LogLevel \<Rightarrow> string" where
  "getLogPrefix level =
     (if level = LogLevelTrace then ''TRACE|''
      else if level = LogLevelInfo then '' INFO|''
      else if level = LogLevelWarning then '' WARN|''
      else if level = LogLevelError then ''ERROR|''
      else if level = LogLevelCritical then ''FATAL|''
      else [])"

text \<open>
  \<open>newLogger\<close>: \<open>w0\<close> is the variable \<open>w\<close> after the first \<open>if\<close> (nil or \<open>os.Stdout\<close>),
  \<open>w1\<close> after the second. The argument \<open>out\<close> is a writer that is not nil.
\<close>

definition newLogger :: "LogLevel \<Rightarrow> Writer \<Rightarrow> LogLevel \<Rightarrow> LogLevel \<Rightarrow> int \<Rightarrow> Logger option" where
  "newLogger level out logStdLevel logOutLevel flags =
     (let w0 = (if level \<ge> logStdLevel then Some Stdout else None);
          w1 = (if level \<ge> logOutLevel \<and> Some out \<noteq> w0
                then (case w0 of Some w \<Rightarrow> Some (io_MultiWriter [w, out]) | None \<Rightarrow> Some out)
                else w0)
      in case w1 of
           None \<Rightarrow> None
         | Some w \<Rightarrow> Some \<lparr>l_out = w, l_prefix = getLogPrefix level, l_flags = flags\<rparr>)"

text \<open>\<open>getLogger\<close>: the logger of a level, or the panic of the \<open>default\<close> branch.\<close>

definition getLogger :: "Globals \<Rightarrow> LogLevel \<Rightarrow> string + Logger option" where
  "getLogger g level =
     (if level = LogLevelTrace then Inr (lTrace g)
      else if level = LogLevelInfo then Inr (lInfo g)
      else if level = LogLevelWarning then Inr (lWarning g)
      else if level = LogLevelError then Inr (lError g)
      else if level = LogLevelCritical then Inr (lCritical g)
      else Inl (''Invalid log level '' @ decimal (unat level)))"

definition Init :: "Globals \<Rightarrow> Writer \<Rightarrow> LogLevel \<Rightarrow> LogLevel \<Rightarrow> LogLevel \<Rightarrow> bool \<Rightarrow> error option \<times> Globals" where
  "Init g out logStdLevel logOutLevel stackLevel logFileName =
     (if initialized g then (Some InitializedErr, g)
      else
        let flags = (if logFileName then LstdFlags OR Lshortfile else LstdFlags) in
        (None,
         g\<lparr>lTrace := newLogger LogLevelTrace out logStdLevel logOutLevel flags,
           lInfo := newLogger LogLevelInfo out logStdLevel logOutLevel flags,
           lWarning := newLogger LogLevelWarning out logStdLevel logOutLevel flags,
           lError := newLogger LogLevelError out logStdLevel logOutLevel flags,
           lCritical := newLogger LogLevelCritical out logStdLevel logOutLevel flags,
           logStack := stackLevel,
           write_var := Some out,
           initialized := True\<rparr>))"

text \<open>
  The two statements that every emit function ends with (before \<open>os.Exit\<close>, where there is
  one), for the logger \<open>log\<close> it has picked, its level, the text \<open>s\<close> that \<open>fmt.Sprint\<close> or
  \<open>fmt.Sprintf\<close> made of the arguments, and the text \<open>stack\<close> of \<open>debug.Stack()\<close>:
  \<^verbatim>\<open>
  if log != nil { log.Output(2, s) }
  if level >= logStack { fmt.Fprintln(write, stack) }
  \<close>
  \<open>fmt.Fprintln\<close> calls the \<open>Write\<close> of its writer, which panics on the nil interface.
\<close>

definition emit :: "Globals \<Rightarrow> string \<Rightarrow> Logger option \<Rightarrow> LogLevel \<Rightarrow> string \<Rightarrow> unit outcome \<times> effect list" where
  "emit g stack log level s =
     (let line = (case log of Some l \<Rightarrow> [LoggerOutput l s] | None \<Rightarrow> []) in
      if level \<ge> logStack g
      then (case write_var g of
              Some w \<Rightarrow> (Returned (), line @ [Fprintln w stack])
            | None \<Rightarrow> (Panicked ''invalid memory address or nil pointer dereference'', line))
      else (Returned (), line))"

text \<open>What every emit function does when \<open>initialized\<close> is false.\<close>

definition not_initialized :: "unit outcome \<times> effect list" where
  "not_initialized = (Returned (), [LogPrint NotInitializedErr])"

text \<open>\<open>os.Exit(1)\<close> after the two statements, reached when they have not panicked.\<close>

fun then_exit :: "unit outcome \<times> effect list \<Rightarrow> unit outcome \<times> effect list" where
  "then_exit (Returned u, es) = (Exited 1, es)"
| "then_exit (oc, es) = (oc, es)"

definition Log :: "Globals \<Rightarrow> string \<Rightarrow> LogLevel \<Rightarrow> string \<Rightarrow> unit outcome \<times> effect list" where
  "Log g stack level s =
     (if \<not> initialized g then not_initialized
      else case getLogger g level of
             Inl v \<Rightarrow> (Panicked v, [])
           | Inr log \<Rightarrow> emit g stack log level s)"

definition Logf :: "Globals \<Rightarrow> string \<Rightarrow> LogLevel \<Rightarrow> string \<Rightarrow> unit outcome \<times> effect list" where
  "Logf g stack level s =
     (if \<not> initialized g then not_initialized
      else case getLogger g level of
             Inl v \<Rightarrow> (Panicked v, [])
           | Inr log \<Rightarrow> emit g stack log level s)"

definition Trace :: "Globals \<Rightarrow> string \<Rightarrow> string \<Rightarrow> unit outcome \<times> effect list" where
  "Trace g stack s =
     (if \<not> initialized g then not_initialized else emit g stack (lTrace g) LogLevelTrace s)"

definition Tracef :: "Globals \<Rightarrow> string \<Rightarrow> string \<Rightarrow> unit outcome \<times> effect list" where
  "Tracef g stack s =
     (if \<not> initialized g then not_initialized else emit g stack (lTrace g) LogLevelTrace s)"

definition Info :: "Globals \<Rightarrow> string \<Rightarrow> string \<Rightarrow> unit outcome \<times> effect list" where
  "Info g stack s =
     (if \<not> initialized g then not_initialized else emit g stack (lInfo g) LogLevelInfo s)"

definition Infof :: "Globals \<Rightarrow> string \<Rightarrow> string \<Rightarrow> unit outcome \<times> effect list" where
  "Infof g stack s =
     (if \<not> initialized g then not_initialized else emit g stack (lInfo g) LogLevelInfo s)"

definition Warning :: "Globals \<Rightarrow> string \<Rightarrow> string \<Rightarrow> unit outcome \<times> effect list" where
  "Warning g stack s =
     (if \<not> initialized g then not_initialized else emit g stack (lWarning g) LogLevelWarning s)"

definition Warningf :: "Globals \<Rightarrow> string \<Rightarrow> string \<Rightarrow> unit outcome \<times> effect list" where
  "Warningf g stack s =
     (if \<not> initialized g then not_initialized else emit g stack (lWarning g) LogLevelWarning s)"

definition Error :: "Globals \<Rightarrow> string \<Rightarrow> string \<Rightarrow> unit outcome \<times> effect list" where
  "Error g stack s =
     (if \<not> initialized g then not_initialized else emit g stack (lError g) LogLevelError s)"

definition Errorf :: "Globals \<Rightarrow> string \<Rightarrow> string \<Rightarrow> unit outcome \<times> effect list" where
  "Errorf g stack s =
     (if \<not> initialized g then not_initialized else emit g stack (lError g) LogLevelError s)"

definition Critical :: "Globals \<Rightarrow> string \<Rightarrow> string \<Rightarrow> unit outcome \<times> effect list" where
  "Critical g stack s =
     (if \<not> initialized g then not_initialized
      else then_exit (emit g stack (lCritical g) LogLevelCritical s))"

definition Criticalf :: "Globals \<Rightarrow> string \<Rightarrow> string \<Rightarrow> unit outcome \<times> effect list" where
  "Criticalf g stack s =
     (if \<not> initialized g then not_initialized
      else then_exit (emit g stack (lCritical g) LogLevelCritical s))"

text \<open>
  \<open>Close\<close>. The argument \<open>r\<close> is what \<open>recover()\<close> returns: the value of the panic in
  flight when \<open>Close\<close> runs as a deferred call, nil (\<open>None\<close>) otherwise. The error logged is
  \<open>r\<close> itself or \<open>fmt.Errorf("%v", r)\<close>; printed, both are the text of \<open>r\<close>.
  The result is how the call ends, the variables after it and its effects. A panic of the
  inner \<open>Log\<close> leaves \<open>Close\<close> at once.
\<close>

definition Close :: "Globals \<Rightarrow> string \<Rightarrow> string option \<Rightarrow> error option outcome \<times> Globals \<times> effect list" where
  "Close g stack r =
     (if \<not> initialized g then (Returned (Some NotInitializedErr), g, [])
      else
        let (logged, es) = (case r of Some v \<Rightarrow> Log g stack LogLevelCritical v
                                    | None \<Rightarrow> (Returned (), []))
        in case logged of
             Panicked v \<Rightarrow> (Panicked v, g, es)
           | Exited n \<Rightarrow> (Exited n, g, es)
           | Returned u \<Rightarrow>
               let g' = g\<lparr>initialized := False\<rparr>;
                   es' = es @ (case write_var g' of
                                 Some w \<Rightarrow> if is_Closer w then [CloserClose w] else []
                               | None \<Rightarrow> [])
               in case r of
                    Some v \<Rightarrow> (Panicked v, g', es')
                  | None \<Rightarrow> (Returned None, g', es'))"

definition GetLogLevel :: "string \<Rightarrow> LogLevel \<times> effect list" where
  "GetLogLevel str =
     (if str = ''trace'' then (LogLevelTrace, [])
      else if str = ''info'' \<or> str = ''information'' then (LogLevelInfo, [])
      else if str = ''warning'' \<or> str = ''warn'' then (LogLevelWarning, [])
      else if str = ''error'' then (LogLevelError, [])
      else if str = ''fatal'' then (LogLevelCritical, [])
      else (LogLevelTrace, [LogPrintln [''Invalid LogLevel'', str]]))"

text \<open>
  The twelve emit functions as one type of calls, each with the level it logs at, so that a
  statement can range over every emit call.
\<close>

datatype emit_call =
    Log_call LogLevel | Logf_call LogLevel
  | Trace_call | Tracef_call
  | Info_call | Infof_call
  | Warning_call | Warningf_call
  | Error_call | Errorf_call
  | Critical_call | Criticalf_call

fun level_of :: "emit_call \<Rightarrow> LogLevel" where
  "level_of (Log_call level) = level"
| "level_of (Logf_call level) = level"
| "level_of Trace_call = LogLevelTrace"
| "level_of Tracef_call = LogLevelTrace"
| "level_of Info_call = LogLevelInfo"
| "level_of Infof_call = LogLevelInfo"
| "level_of Warning_call = LogLevelWarning"
| "level_of Warningf_call = LogLevelWarning"
| "level_of Error_call = LogLevelError"
| "level_of Errorf_call = LogLevelError"
| "level_of Critical_call = LogLevelCritical"
| "level_of Criticalf_call = LogLevelCritical"

fun call :: "Globals \<Rightarrow> string \<Rightarrow> emit_call \<Rightarrow> string \<Rightarrow> unit outcome \<times> effect list" where
  "call g stack (Log_call level) s = Log g stack level s"
| "call g stack (Logf_call level) s = Logf g stack level s"
| "call g stack Trace_call s = Trace g stack s"
| "call g stack Tracef_call s = Tracef g stack s"
| "call g stack Info_call s = Info g stack s"
| "call g stack Infof_call s = Infof g stack s"
| "call g stack Warning_call s = Warning g stack s"
| "call g stack Warningf_call s = Warningf g stack s"
| "call g stack Error_call s = Error g stack s"
| "call g stack Errorf_call s = Errorf g stack s"
| "call g stack Critical_call s = Critical g stack s"
| "call g stack Criticalf_call s = Criticalf g stack s"

fun is_Critical :: "emit_call \<Rightarrow> bool" where
  "is_Critical Critical_call = True"
| "is_Critical Criticalf_call = True"
| "is_Critical c = False"

text \<open>
  A run of the package: calls of \<open>Init\<close>, of \<open>Close\<close> and of emit functions, one after the
  other. \<open>step\<close> gives the variables after one call; none but \<open>Init\<close> and \<open>Close\<close> assigns any.
\<close>

datatype api_call =
    Init_call Writer LogLevel LogLevel LogLevel bool
  | Close_call "string option"
  | Emit_call emit_call string

fun is_Close :: "api_call \<Rightarrow> bool" where
  "is_Close (Close_call r) = True"
| "is_Close c = False"

fun step :: "string \<Rightarrow> Globals \<Rightarrow> api_call \<Rightarrow> Globals" where
  "step stack g (Init_call out logStdLevel logOutLevel stackLevel logFileName) =
     snd (Init g out logStdLevel logOutLevel stackLevel logFileName)"
| "step stack g (Close_call r) = fst (snd (Close g stack r))"
| "step stack g (Emit_call c s) = g"

text \<open>
  The logger stored for a level (\<open>None\<close> for a level above the five), and the flags that
  \<open>Init\<close> computes from \<open>logFileName\<close>.
\<close>

definition logger_of :: "Globals \<Rightarrow> LogLevel \<Rightarrow> Logger option" where
  "logger_of g level = (case getLogger g level of Inr log \<Rightarrow> log | Inl v \<Rightarrow> None)"

definition flags_of :: "bool \<Rightarrow> int" where
  "flags_of logFileName = (if logFileName then LstdFlags OR Lshortfile else LstdFlags)"

text \<open>The states the variables can be in: those a run reaches from process start.\<close>

inductive reachable :: "Globals \<Rightarrow> bool" where
  start: "reachable process_start"
| after: "reachable g \<Longrightarrow> reachable (step stack g c)"

text \<open>The generic entry points \<open>Log\<close> and \<open>Logf\<close>, which take the level as an argument.\<close>

fun is_generic :: "emit_call \<Rightarrow> bool" where
  "is_generic (Log_call level) = True"
| "is_generic (Logf_call level) = True"
| "is_generic c = False"

text \<open>
  The writers that a line of a logger ends up at: none for the nil logger, else those its
  writer passes bytes on to.
\<close>

definition routed :: "Logger option \<Rightarrow> Writer list" where
  "routed log = (case log of None \<Rightarrow> [] | Some l \<Rightarrow> reaches (l_out l))"

text \<open>What \<open>Close\<close> does to the stored output: one \<open>Close()\<close> call if it is an \<open>io.Closer\<close>.\<close>

definition closing :: "Globals \<Rightarrow> effect list" where
  "closing g =
     (case write_var g of
        Some w \<Rightarrow> if is_Closer w then [CloserClose w] else []
      | None \<Rightarrow> [])"

section \<open>The fan-out writer: lemmas\<close>

lemma Write_range_fold:
  "Write_range env ws p j = fold (\<lambda>w j'. snd (Write env w p j')) ws j"
  by (induction ws arbitrary: j) simp_all

lemma Write_leaf:
  "\<not> is_multiWriter w \<Longrightarrow> Write env w p j = (env j w p, j @ [(w, p)])"
  by (cases w) simp_all

lemma Write_range_leaves:
  "(\<forall>w \<in> set ws. \<not> is_multiWriter w) \<Longrightarrow>
   Write_range env ws p j = j @ map (\<lambda>w. (w, p)) ws"
  by (induction ws arbitrary: j) (simp_all add: Write_leaf)

lemma MultiWriter_loop_concat:
  "MultiWriter_loop acc ws = acc @ concat (map children ws)"
  by (induction ws arbitrary: acc) (simp_all split: Writer.splits)

lemma leaves_leaf: "\<not> is_multiWriter w \<Longrightarrow> leaves w = [w]"
  by (cases w) simp_all

lemma leaves_flat_list:
  "(\<forall>c \<in> set cs. \<not> is_multiWriter c) \<Longrightarrow> concat (map leaves cs) = cs"
  by (induction cs) (simp_all add: leaves_leaf)

lemma composed_flat:
  "composed w \<Longrightarrow> (\<forall>c \<in> set (children w). \<not> is_multiWriter c) \<and> children w = leaves w"
proof (induction rule: composed.induct)
  case (leaf w)
  then show ?case by (cases w) simp_all
next
  case (fan ws)
  from fan.IH have "map children ws = map leaves ws"
    by simp
  then have cs: "concat (map children ws) = concat (map leaves ws)"
    by (rule arg_cong)
  from fan.IH have "\<forall>c \<in> set (concat (map children ws)). \<not> is_multiWriter c"
    by auto
  with cs show ?case
    by (simp add: MultiWriter_def MultiWriter_loop_concat leaves_flat_list)
qed

lemma MultiWriter_composed:
  assumes "\<forall>w \<in> set ws. composed w"
  shows "MultiWriter ws = multiWriter (concat (map leaves ws))"
proof -
  from assms have "map children ws = map leaves ws"
    by (simp add: composed_flat)
  then have "concat (map children ws) = concat (map leaves ws)"
    by (rule arg_cong)
  then show ?thesis
    by (simp add: MultiWriter_def MultiWriter_loop_concat)
qed

lemma leaves_composed:
  assumes "\<forall>w \<in> set ws. composed w"
  shows "\<forall>c \<in> set (concat (map leaves ws)). \<not> is_multiWriter c"
proof -
  have "\<forall>c \<in> set (leaves w). \<not> is_multiWriter c" if "w \<in> set ws" for w
    using composed_flat [of w] assms that by auto
  then show ?thesis by auto
qed

section \<open>The logger: lemmas\<close>

lemma level_cases:
  assumes "(L::LogLevel) \<le> LogLevelCritical"
  shows "L = 0 \<or> L = 1 \<or> L = 2 \<or> L = 3 \<or> L = 4"
proof -
  from assms have "unat L \<le> 4" by (simp add: word_le_nat_alt)
  then have "unat L = 0 \<or> unat L = 1 \<or> unat L = 2 \<or> unat L = 3 \<or> unat L = 4" by arith
  moreover have "L = word_of_nat n" if "unat L = n" for n
    using that of_nat_unat [of L, where ?'a = "8 word"] by simp
  ultimately have "L = word_of_nat 0 \<or> L = word_of_nat 1 \<or> L = word_of_nat 2
      \<or> L = word_of_nat 3 \<or> L = word_of_nat 4"
    by blast
  then show ?thesis
    by simp
qed

lemma level_above:
  "(L::LogLevel) > LogLevelCritical \<Longrightarrow> L \<noteq> 0 \<and> L \<noteq> 1 \<and> L \<noteq> 2 \<and> L \<noteq> 3 \<and> L \<noteq> 4"
  by auto

lemma reaches_io_MultiWriter:
  "reaches (io_MultiWriter ws) = concat (map reaches ws)"
  unfolding io_MultiWriter_def
  by (induction ws) (simp_all split: Writer.splits)

lemma newLogger_out:
  "map_option l_out (newLogger L out std sink flags) =
     (if L \<ge> std \<and> L \<ge> sink \<and> out \<noteq> Stdout then Some (io_MultiWriter [Stdout, out])
      else if L \<ge> std then Some Stdout
      else if L \<ge> sink then Some out
      else None)"
  by (simp add: newLogger_def)

lemma newLogger_None:
  "newLogger L out std sink flags = None \<longleftrightarrow> L < std \<and> L < sink"
  by (auto simp: newLogger_def Let_def split: option.splits)

lemma Init_fresh:
  "\<not> initialized g \<Longrightarrow>
   Init g out std sink stk fn =
     (None,
      g\<lparr>lTrace := newLogger LogLevelTrace out std sink (flags_of fn),
        lInfo := newLogger LogLevelInfo out std sink (flags_of fn),
        lWarning := newLogger LogLevelWarning out std sink (flags_of fn),
        lError := newLogger LogLevelError out std sink (flags_of fn),
        lCritical := newLogger LogLevelCritical out std sink (flags_of fn),
        logStack := stk, write_var := Some out, initialized := True\<rparr>)"
  by (simp add: Init_def flags_of_def Let_def)

lemma Init_again:
  "initialized g \<Longrightarrow> Init g out std sink stk fn = (Some InitializedErr, g)"
  by (simp add: Init_def)

lemma Init_initialized: "initialized (snd (Init g out std sink stk fn))"
  by (cases "initialized g") (simp_all add: Init_fresh Init_again)

lemma logger_of_Init:
  assumes "\<not> initialized g" "L \<le> LogLevelCritical"
  shows "logger_of (snd (Init g out std sink stk fn)) L = newLogger L out std sink (flags_of fn)"
  using level_cases [OF assms(2)] assms(1)
  by (auto simp: Init_fresh logger_of_def getLogger_def)

lemma getLogger_valid:
  "L \<le> LogLevelCritical \<Longrightarrow> getLogger g L = Inr (logger_of g L)"
  by (drule level_cases) (auto simp: logger_of_def getLogger_def)

lemma getLogger_invalid:
  "L > LogLevelCritical \<Longrightarrow> getLogger g L = Inl (''Invalid log level '' @ decimal (unat L))"
  by (drule level_above) (simp add: getLogger_def)

text \<open>What an emit call at one of the five levels does once the logger is initialized.\<close>

lemma call_initialized:
  assumes "initialized g" "write_var g = Some w" "level_of c \<le> LogLevelCritical"
  shows "call g stack c s =
     (if is_Critical c then Exited 1 else Returned (),
      (case logger_of g (level_of c) of None \<Rightarrow> [] | Some l \<Rightarrow> [LoggerOutput l s])
      @ (if level_of c \<ge> logStack g then [Fprintln w stack] else []))"
proof -
  have e: "emit g stack log L s =
      (Returned (), (case log of None \<Rightarrow> [] | Some l \<Rightarrow> [LoggerOutput l s])
        @ (if L \<ge> logStack g then [Fprintln w stack] else []))" for log L
    using assms(2) by (simp add: emit_def Let_def split: option.splits)
  have l: "lTrace g = logger_of g 0" "lInfo g = logger_of g 1" "lWarning g = logger_of g 2"
    "lError g = logger_of g 3" "lCritical g = logger_of g 4"
    by (simp_all add: logger_of_def getLogger_def)
  show ?thesis
  proof (cases c)
    case (Log_call L)
    with assms show ?thesis
      by (simp add: Log_def getLogger_valid e)
  next
    case (Logf_call L)
    with assms show ?thesis
      by (simp add: Logf_def getLogger_valid e)
  qed (use assms(1) in \<open>simp_all add: Trace_def Tracef_def Info_def Infof_def Warning_def
        Warningf_def Error_def Errorf_def Critical_def Criticalf_def e l\<close>)
qed

lemma call_uninitialized:
  "\<not> initialized g \<Longrightarrow> call g stack c s = (Returned (), [LogPrint NotInitializedErr])"
  by (cases c) (simp_all add: Log_def Logf_def Trace_def Tracef_def Info_def Infof_def
      Warning_def Warningf_def Error_def Errorf_def Critical_def Criticalf_def not_initialized_def)

lemma call_invalid_level:
  assumes "initialized g" "is_generic c" "level_of c > LogLevelCritical"
  shows "call g stack c s = (Panicked (''Invalid log level '' @ decimal (unat (level_of c))), [])"
  using assms by (cases c) (simp_all add: Log_def Logf_def getLogger_invalid)

lemma level_of_convenience: "\<not> is_generic c \<Longrightarrow> level_of c \<le> LogLevelCritical"
  by (cases c) simp_all

lemma Close_state:
  "fst (snd (Close g stack r)) = g \<or> fst (snd (Close g stack r)) = g\<lparr>initialized := False\<rparr>"
  by (simp add: Close_def Let_def split: prod.splits outcome.splits option.splits)

lemma reachable_write:
  "reachable g \<Longrightarrow> initialized g \<Longrightarrow> \<exists>w. write_var g = Some w"
proof (induction rule: reachable.induct)
  case start
  then show ?case by (simp add: process_start_def)
next
  case (after g stack c)
  show ?case
  proof (cases c)
    case (Init_call out std sink stk fn)
    with after show ?thesis
      by (cases "initialized g") (simp_all add: Init_fresh Init_again)
  next
    case (Close_call r)
    with after Close_state [of g stack r] show ?thesis
      by auto
  next
    case (Emit_call e s)
    with after show ?thesis by simp
  qed
qed


lemma run_no_Close:
  "initialized g \<Longrightarrow> \<forall>c \<in> set mid. \<not> is_Close c \<Longrightarrow>
   fold (\<lambda>c g'. step stack g' c) mid g = g"
proof (induction mid)
  case Nil
  then show ?case by simp
next
  case (Cons c mid)
  then have "step stack g c = g"
    by (cases c) (simp_all add: Init_again)
  with Cons show ?case by simp
qed

lemma Log_not_Exited: "fst (Log g stack L s) \<noteq> Exited n"
  by (simp add: Log_def not_initialized_def emit_def Let_def split: sum.splits option.splits)

lemma Close_not_Exited: "fst (Close g stack r) \<noteq> Exited n"
proof (cases r)
  case None
  then show ?thesis by (simp add: Close_def Let_def)
next
  case (Some v)
  obtain oc es where l: "Log g stack LogLevelCritical v = (oc, es)"
    by (cases "Log g stack LogLevelCritical v")
  with Log_not_Exited [of g stack LogLevelCritical v] have "\<And>n. oc \<noteq> Exited n"
    by simp
  with Some l show ?thesis
    by (cases oc) (simp_all add: Close_def Let_def)
qed

lemma reachable_Init_start:
  "reachable (snd (Init process_start out std sink stk fn))"
  using reachable.after [OF reachable.start, of "[]" "Init_call out std sink stk fn"] by simp

section \<open>The fan-out writer: claims\<close>

text \<open>
  C2. For every byte sequence \<open>p\<close> and every fan-out writer, \<open>Write(p)\<close> calls the
  \<open>Write\<close> of every owned destination exactly once, in the order of the \<open>writers\<close>
  slice, and returns the count \<open>len(p)\<close> and no error, whatever the destinations return:
  the theorem holds for every environment \<open>env\<close>, so for every pattern of failing
  destinations, and the journal after the call does not depend on \<open>env\<close>.
\<close>

theorem multiWriter_Write_broadcast:
  "fst (Write env (multiWriter ws) p j) = (length p, None)
   \<and> snd (Write env (multiWriter ws) p j) = fold (\<lambda>w j'. snd (Write env w p j')) ws j
   \<and> ((\<forall>w \<in> set ws. \<not> is_multiWriter w) \<longrightarrow>
        snd (Write env (multiWriter ws) p j) = j @ map (\<lambda>w. (w, p)) ws)"
  by (simp add: Write_range_fold [symmetric] Write_range_leaves)

text \<open>
  An instance with a first destination that fails on every write: the two destinations
  after it still receive the bytes.
\<close>

theorem multiWriter_Write_broadcast_witness:
  "\<not> is_multiWriter (Sink 1) \<and> \<not> is_multiWriter Stdout \<and> \<not> is_multiWriter (Sink 2)
   \<and> (\<lambda>j w p. if w = Sink 1 then (0, Some (WriteErr ''disk full'')) else (length p, None))
        [] (Sink 1) ''hi'' = (0, Some (WriteErr ''disk full''))
   \<and> Write (\<lambda>j w p. if w = Sink 1 then (0, Some (WriteErr ''disk full'')) else (length p, None))
        (multiWriter [Sink 1, Stdout, Sink 2]) ''hi'' []
      = ((2, None), [(Sink 1, ''hi''), (Stdout, ''hi''), (Sink 2, ''hi'')])"
  using multiWriter_Write_broadcast
    [of "\<lambda>j w p. if w = Sink 1 then (0, Some (WriteErr ''disk full'')) else (length p, None)"
        "[Sink 1, Stdout, Sink 2]" "''hi''" "[]"]
  by (simp add: prod_eq_iff)

text \<open>
  C3, as stated: a \<open>Write\<close> to the result of \<open>MultiWriter\<close> calls exactly the set of
  leaf sinks, each once per call. This fails where a leaf is handed over more than once:
  \<open>MultiWriter\<close> appends every input and keeps duplicates, so for the inputs \<open>a, a\<close> the
  set of leaves is \<open>{a}\<close> and one \<open>Write\<close> calls \<open>a\<close> twice.
\<close>

theorem MultiWriter_repeated_leaf_counterexample:
  "composed (Sink 1)
   \<and> MultiWriter [Sink 1, Sink 1] = multiWriter [Sink 1, Sink 1]
   \<and> set (concat (map leaves [Sink 1, Sink 1])) = {Sink 1}
   \<and> snd (Write (\<lambda>j w p. (length p, None)) (MultiWriter [Sink 1, Sink 1]) ''x'' [])
       = [(Sink 1, ''x''), (Sink 1, ''x'')]
   \<and> count_list (snd (Write (\<lambda>j w p. (length p, None)) (MultiWriter [Sink 1, Sink 1]) ''x'' []))
        (Sink 1, ''x'') = 2
   \<and> count_list (snd (Write (\<lambda>j w p. (length p, None)) (MultiWriter [Sink 1, Sink 1]) ''x'' []))
        (Sink 1, ''x'') \<noteq> 1"
proof -
  have "composed (Sink 1)"
    by (rule composed.leaf) simp
  then show ?thesis
    by (simp add: MultiWriter_def)
qed

text \<open>
  C3, amended. For writers \<open>ws\<close> that are each a leaf or built by \<open>MultiWriter\<close> (to any
  depth), \<open>MultiWriter ws\<close> is a fan-out writer whose \<open>writers\<close> are the leaves of \<open>ws\<close>
  in order, with repetitions kept and none of them a fan-out writer, and a \<open>Write\<close> to it
  calls the leaves in that order, each once per occurrence in that sequence (so once where
  the leaves are distinct), however deeply the inputs were composed.
\<close>

theorem MultiWriter_flat:
  assumes "\<forall>w \<in> set ws. composed w"
  shows "MultiWriter ws = multiWriter (concat (map leaves ws))
    \<and> (\<forall>c \<in> set (concat (map leaves ws)). \<not> is_multiWriter c)
    \<and> Write env (MultiWriter ws) p j =
        ((length p, None), j @ map (\<lambda>l. (l, p)) (concat (map leaves ws)))"
proof -
  have flat: "\<forall>c \<in> set (concat (map leaves ws)). \<not> is_multiWriter c"
    using assms by (rule leaves_composed)
  have eq: "MultiWriter ws = multiWriter (concat (map leaves ws))"
    using assms by (rule MultiWriter_composed)
  have "Write_range env (concat (map leaves ws)) p j
        = j @ map (\<lambda>l. (l, p)) (concat (map leaves ws))"
    using flat by (rule Write_range_leaves)
  with eq flat show ?thesis by simp
qed

theorem MultiWriter_flat_witness:
  "composed (MultiWriter [MultiWriter [Sink 1, Stdout], Sink 2])
   \<and> composed (Sink 1) \<and> composed (MultiWriter [])
   \<and> MultiWriter [MultiWriter [MultiWriter [Sink 1, Stdout], Sink 2], Sink 1, MultiWriter []]
       = multiWriter [Sink 1, Stdout, Sink 2, Sink 1]
   \<and> Write (\<lambda>j w p. (0, Some (WriteErr [])))
        (MultiWriter [MultiWriter [MultiWriter [Sink 1, Stdout], Sink 2], Sink 1, MultiWriter []]) ''x'' []
       = ((1, None), [(Sink 1, ''x''), (Stdout, ''x''), (Sink 2, ''x''), (Sink 1, ''x'')])"
proof -
  have a: "composed (Sink 1)" "composed Stdout" "composed (Sink 2)"
    by (rule composed.leaf, simp)+
  have b: "composed (MultiWriter [Sink 1, Stdout])"
    using a by (intro composed.fan) simp
  have c: "composed (MultiWriter [MultiWriter [Sink 1, Stdout], Sink 2])"
    using a b by (intro composed.fan) simp
  have d: "composed (MultiWriter [])"
    by (rule composed.fan) simp
  have h: "\<forall>w \<in> set [MultiWriter [MultiWriter [Sink 1, Stdout], Sink 2], Sink 1, MultiWriter []]. composed w"
    using a c d by simp
  have l: "concat (map leaves [MultiWriter [MultiWriter [Sink 1, Stdout], Sink 2], Sink 1, MultiWriter []])
     = [Sink 1, Stdout, Sink 2, Sink 1]"
    by (simp add: MultiWriter_def)
  show ?thesis
    using a c d MultiWriter_flat [OF h, of "\<lambda>j w p. (0, Some (WriteErr []))" "''x''" "[]"]
    unfolding l by simp
qed

section \<open>The logger: claims\<close>

text \<open>
  C1, as stated: the destination resolved for a level \<open>L\<close> routes \<open>L\<close> to standard
  output if and only if \<open>L \<ge> stdoutCutoff\<close>. This fails where the configured output is
  \<open>os.Stdout\<close> itself: \<open>newLogger\<close> compares \<open>out\<close> with the variable \<open>w\<close>, which is nil
  below the stdout cutoff, so \<open>out\<close> becomes the destination and the level is written to
  standard output although it is below the stdout cutoff.
\<close>

theorem newLogger_stdout_counterexample:
  "newLogger LogLevelTrace Stdout LogLevelCritical LogLevelTrace LstdFlags
     = Some \<lparr>l_out = Stdout, l_prefix = ''TRACE|'', l_flags = 3\<rparr>
   \<and> Stdout \<in> set (routed (newLogger LogLevelTrace Stdout LogLevelCritical LogLevelTrace LstdFlags))
   \<and> \<not> LogLevelTrace \<ge> LogLevelCritical"
  by (simp add: newLogger_def routed_def getLogPrefix_def LstdFlags_def)

text \<open>
  C1, amended. For every level \<open>L\<close>, output \<open>out\<close> and cutoffs, the destination resolved
  for \<open>L\<close> is \<open>io.MultiWriter(os.Stdout, out)\<close> when \<open>L\<close> is at or above both cutoffs and
  \<open>out\<close> is not \<open>os.Stdout\<close>; \<open>os.Stdout\<close> alone when \<open>L\<close> is at or above the stdout cutoff
  otherwise; \<open>out\<close> alone when \<open>L\<close> is below the stdout cutoff and at or above the sink
  cutoff; and none below both. So a line at \<open>L\<close> goes to standard output when
  \<open>L \<ge> stdoutCutoff\<close>, and then to what \<open>out\<close> writes to if and only if
  \<open>L \<ge> sinkCutoff\<close> and \<open>out\<close> is not identical to the stdout destination resolved so far
  (\<open>os.Stdout\<close> at or above the stdout cutoff, nil below it): an output equal to
  \<open>os.Stdout\<close> is written once, not twice. Standard output receives the line if and only if
  \<open>L \<ge> stdoutCutoff\<close>, or \<open>L \<ge> sinkCutoff\<close> and \<open>out\<close> is or passes on to \<open>os.Stdout\<close>.
\<close>

theorem newLogger_routing:
  "map_option l_out (newLogger L out std sink flags) =
     (if L \<ge> std \<and> L \<ge> sink \<and> out \<noteq> Stdout then Some (io_MultiWriter [Stdout, out])
      else if L \<ge> std then Some Stdout
      else if L \<ge> sink then Some out
      else None)
   \<and> routed (newLogger L out std sink flags) =
       (if L \<ge> std then [Stdout] else [])
       @ (if L \<ge> sink \<and> Some out \<noteq> (if L \<ge> std then Some Stdout else None)
          then reaches out else [])
   \<and> (Stdout \<in> set (routed (newLogger L out std sink flags))
        \<longleftrightarrow> L \<ge> std \<or> (L \<ge> sink \<and> Stdout \<in> set (reaches out)))"
  by (auto simp: newLogger_def routed_def reaches_io_MultiWriter)

theorem newLogger_routing_witness:
  "map_option l_out (newLogger LogLevelError (Sink 7) LogLevelInfo LogLevelWarning 3)
     = Some (IoMultiWriter [Stdout, Sink 7])
   \<and> routed (newLogger LogLevelError (Sink 7) LogLevelInfo LogLevelWarning 3) = [Stdout, Sink 7]
   \<and> routed (newLogger LogLevelError Stdout LogLevelInfo LogLevelWarning 3) = [Stdout]
   \<and> routed (newLogger LogLevelInfo (Sink 7) LogLevelInfo LogLevelWarning 3) = [Stdout]
   \<and> routed (newLogger LogLevelTrace (Sink 7) LogLevelInfo LogLevelWarning 3) = []
   \<and> routed (newLogger LogLevelTrace Stdout LogLevelInfo LogLevelTrace 3) = [Stdout]"
  using newLogger_routing [of LogLevelError "Sink 7" LogLevelInfo LogLevelWarning 3]
    newLogger_routing [of LogLevelError Stdout LogLevelInfo LogLevelWarning 3]
    newLogger_routing [of LogLevelInfo "Sink 7" LogLevelInfo LogLevelWarning 3]
    newLogger_routing [of LogLevelTrace "Sink 7" LogLevelInfo LogLevelWarning 3]
    newLogger_routing [of LogLevelTrace Stdout LogLevelInfo LogLevelTrace 3]
  by (simp add: io_MultiWriter_def routed_def word_le_nat_alt)

text \<open>
  C4, as stated: after a successful \<open>Init\<close>, an emit call at a level below both cutoffs
  produces no output at all. This fails where the level is at or above the stack cutoff:
  the stack dump is outside the test \<open>log != nil\<close> and is written to \<open>out\<close>.
\<close>

theorem emit_below_cutoffs_counterexample:
  "LogLevelTrace < LogLevelCritical
   \<and> fst (Init process_start (Sink 0) LogLevelCritical LogLevelCritical LogLevelTrace False) = None
   \<and> call (snd (Init process_start (Sink 0) LogLevelCritical LogLevelCritical LogLevelTrace False))
        ''stack'' Trace_call ''x''
      = (Returned (), [Fprintln (Sink 0) ''stack''])"
  by (simp add: Init_def process_start_def Trace_def emit_def newLogger_def)

text \<open>
  C4, amended. After a successful \<open>Init\<close>, an emit call at one of the five levels, below
  both cutoffs, passes the initialized check and writes no message line to any destination;
  its only output is the stack dump to \<open>out\<close> when the level is at or above the stack
  cutoff, and nothing at all when it is below. (\<open>Critical\<close> and \<open>Criticalf\<close> then exit.)
\<close>

theorem emit_below_cutoffs:
  assumes "\<not> initialized g0" "level_of c \<le> LogLevelCritical"
    and "level_of c < std" "level_of c < sink"
  shows "fst (Init g0 out std sink stk fn) = None
    \<and> call (snd (Init g0 out std sink stk fn)) stack c s =
        (if is_Critical c then Exited 1 else Returned (),
         if level_of c \<ge> stk then [Fprintln out stack] else [])"
proof -
  let ?g = "snd (Init g0 out std sink stk fn)"
  have i: "initialized ?g" "write_var ?g = Some out" "logStack ?g = stk"
    using assms(1) by (simp_all add: Init_fresh)
  have "newLogger (level_of c) out std sink (flags_of fn) = None"
    using assms(3,4) by (simp add: newLogger_None)
  then have "logger_of ?g (level_of c) = None"
    using assms(1,2) by (simp add: logger_of_Init)
  with call_initialized [OF i(1,2) assms(2), of stack s] i(3) assms(1)
  show ?thesis by (simp add: Init_fresh)
qed

theorem emit_below_cutoffs_witness:
  "\<not> initialized process_start \<and> level_of (Log_call LogLevelInfo) \<le> LogLevelCritical
   \<and> level_of (Log_call LogLevelInfo) < LogLevelWarning
   \<and> level_of (Log_call LogLevelInfo) < LogLevelError
   \<and> call (snd (Init process_start (Sink 0) LogLevelWarning LogLevelError LogLevelCritical True))
        ''stack'' (Log_call LogLevelInfo) ''x'' = (Returned (), [])
   \<and> call (snd (Init process_start (Sink 0) LogLevelWarning LogLevelError LogLevelTrace True))
        ''stack'' (Log_call LogLevelInfo) ''x'' = (Returned (), [Fprintln (Sink 0) ''stack''])"
proof -
  have h: "\<not> initialized process_start" "level_of (Log_call LogLevelInfo) \<le> LogLevelCritical"
    "level_of (Log_call LogLevelInfo) < LogLevelWarning"
    "level_of (Log_call LogLevelInfo) < LogLevelError"
    by (simp_all add: process_start_def)
  show ?thesis
    using h emit_below_cutoffs [OF h, of "Sink 0" LogLevelCritical True "''stack''" "''x''"]
      emit_below_cutoffs [OF h, of "Sink 0" LogLevelTrace True "''stack''" "''x''"]
    by (simp add: word_le_nat_alt)
qed

text \<open>
  C5. After a successful \<open>Init\<close>, every emit call at one of the five levels that is at
  or above the stack cutoff writes the stack trace to the raw output \<open>out\<close> given to
  \<open>Init\<close>, after the message line if the level has a logger, and also if it has none
  (\<open>newLogger\<close> returned nil). The trace is passed to \<open>out\<close>, not to the writer
  \<open>l_out\<close> of the level's logger.
\<close>

theorem stack_dump_to_out:
  assumes "\<not> initialized g0" "level_of c \<le> LogLevelCritical" "level_of c \<ge> stk"
  shows "snd (call (snd (Init g0 out std sink stk fn)) stack c s) =
      (case newLogger (level_of c) out std sink (flags_of fn) of
         None \<Rightarrow> [] | Some l \<Rightarrow> [LoggerOutput l s])
      @ [Fprintln out stack]"
proof -
  let ?g = "snd (Init g0 out std sink stk fn)"
  have i: "initialized ?g" "write_var ?g = Some out" "logStack ?g = stk"
    using assms(1) by (simp_all add: Init_fresh)
  show ?thesis
    using call_initialized [OF i(1,2) assms(2), of stack s] i(3) assms
    by (simp add: logger_of_Init)
qed

theorem stack_dump_to_out_witness:
  "\<not> initialized process_start \<and> level_of Error_call \<le> LogLevelCritical
   \<and> level_of Error_call \<ge> LogLevelError
   \<and> snd (call (snd (Init process_start (Sink 0) LogLevelInfo LogLevelWarning LogLevelError False))
        ''stack'' Error_call ''x'')
      = [LoggerOutput \<lparr>l_out = IoMultiWriter [Stdout, Sink 0], l_prefix = ''ERROR|'', l_flags = 3\<rparr> ''x'',
         Fprintln (Sink 0) ''stack'']
   \<and> snd (call (snd (Init process_start (Sink 0) LogLevelCritical LogLevelCritical LogLevelError False))
        ''stack'' Error_call ''x'')
      = [Fprintln (Sink 0) ''stack'']"
proof -
  have h: "\<not> initialized process_start" "level_of Error_call \<le> LogLevelCritical"
    "level_of Error_call \<ge> LogLevelError"
    by (simp_all add: process_start_def)
  show ?thesis
    using h stack_dump_to_out [OF h, of "Sink 0" LogLevelInfo LogLevelWarning False "''stack''" "''x''"]
      stack_dump_to_out [OF h, of "Sink 0" LogLevelCritical LogLevelCritical False "''stack''" "''x''"]
    by (simp add: newLogger_def io_MultiWriter_def getLogPrefix_def flags_of_def LstdFlags_def)
qed

text \<open>
  C6. Of two \<open>Init\<close> calls with no \<open>Close\<close> between them (any emit calls and further
  \<open>Init\<close> calls may come between), the second returns \<open>InitializedErr\<close> and leaves every
  variable as it was after the first: when the first call succeeded these are the five
  loggers it resolved, its stack level, its output and \<open>initialized = true\<close>.
\<close>

theorem Init_twice:
  assumes "\<forall>c \<in> set mid. \<not> is_Close c"
  shows "fold (\<lambda>c g'. step stack g' c) mid (snd (Init g out std sink stk fn))
           = snd (Init g out std sink stk fn)
    \<and> Init (fold (\<lambda>c g'. step stack g' c) mid (snd (Init g out std sink stk fn)))
           out' std' sink' stk' fn'
         = (Some InitializedErr, snd (Init g out std sink stk fn))
    \<and> (\<not> initialized g \<longrightarrow>
          fst (Init g out std sink stk fn) = None
        \<and> initialized (snd (Init g out std sink stk fn))
        \<and> logStack (snd (Init g out std sink stk fn)) = stk
        \<and> write_var (snd (Init g out std sink stk fn)) = Some out
        \<and> (\<forall>L. L \<le> LogLevelCritical \<longrightarrow>
              logger_of (snd (Init g out std sink stk fn)) L
                = newLogger L out std sink (flags_of fn)))"
proof -
  let ?g1 = "snd (Init g out std sink stk fn)"
  have i: "initialized ?g1" by (rule Init_initialized)
  have same: "fold (\<lambda>c g'. step stack g' c) mid ?g1 = ?g1"
    using i assms by (rule run_no_Close)
  have again: "Init ?g1 out' std' sink' stk' fn' = (Some InitializedErr, ?g1)"
    using i by (rule Init_again)
  have first: "fst (Init g out std sink stk fn) = None \<and> logStack ?g1 = stk
      \<and> write_var ?g1 = Some out" if "\<not> initialized g"
    using that by (simp add: Init_fresh)
  show ?thesis
    using same again first i logger_of_Init [of g _ out std sink stk fn] by simp
qed

theorem Init_twice_witness:
  "\<not> is_Close (Emit_call Info_call ''x'') \<and> \<not> is_Close (Init_call Stdout 4 4 4 True)
   \<and> \<not> initialized process_start
   \<and> fst (Init process_start (Sink 0) LogLevelInfo LogLevelWarning LogLevelError False) = None
   \<and> Init (fold (\<lambda>c g'. step ''stack'' g' c)
              [Emit_call Info_call ''x'', Init_call Stdout 4 4 4 True]
              (snd (Init process_start (Sink 0) LogLevelInfo LogLevelWarning LogLevelError False)))
        Stdout LogLevelTrace LogLevelTrace LogLevelTrace True
      = (Some InitializedErr,
         snd (Init process_start (Sink 0) LogLevelInfo LogLevelWarning LogLevelError False))
   \<and> logStack (snd (Init process_start (Sink 0) LogLevelInfo LogLevelWarning LogLevelError False))
       = LogLevelError
   \<and> write_var (snd (Init process_start (Sink 0) LogLevelInfo LogLevelWarning LogLevelError False))
       = Some (Sink 0)"
proof -
  have h: "\<forall>c \<in> set [Emit_call Info_call ''x'', Init_call Stdout 4 4 4 True]. \<not> is_Close c"
    by simp
  have p: "\<not> initialized process_start"
    by (simp add: process_start_def)
  show ?thesis
    using p Init_twice [OF h, of "''stack''" process_start "Sink 0" LogLevelInfo LogLevelWarning
        LogLevelError False Stdout LogLevelTrace LogLevelTrace LogLevelTrace True]
    by (simp add: Init_again Init_initialized)
qed

text \<open>
  C7, as stated: \<open>Close\<close> called in the initialized state returns no error. This fails
  where \<open>Close\<close> runs as a deferred call with a panic in flight: \<open>recover()\<close> gives the
  panic value, and after the teardown \<open>Close\<close> panics with it again instead of returning.
\<close>

theorem Close_repanics_counterexample:
  "initialized (snd (Init process_start (Sink 0) LogLevelTrace LogLevelTrace LogLevelCritical False))
   \<and> fst (Close (snd (Init process_start (Sink 0) LogLevelTrace LogLevelTrace LogLevelCritical False))
          ''stack'' (Some ''boom'')) = Panicked ''boom''
   \<and> fst (Close (snd (Init process_start (Sink 0) LogLevelTrace LogLevelTrace LogLevelCritical False))
          ''stack'' (Some ''boom'')) \<noteq> Returned None"
  by (simp add: Init_def process_start_def Close_def Log_def getLogger_def emit_def newLogger_def
      Let_def)

text \<open>
  C7, amended. \<open>Close\<close> called in the uninitialized state returns \<open>NotInitializedErr\<close>
  and changes nothing. Called in the initialized state with no panic in flight it sets
  \<open>initialized\<close> to false, so that every later emit call prints the fallback notice and
  returns, calls \<open>Close()\<close> on the stored output if that is an \<open>io.Closer\<close> (the result is
  dropped) and returns no error. Called in the initialized state with a panic in flight it
  first logs the panic value through \<open>Log\<close> at \<open>LogLevelCritical\<close>, does the same
  teardown, and panics again with that value instead of returning.
\<close>

theorem Close_behaviour:
  "(\<not> initialized g \<longrightarrow> Close g stack r = (Returned (Some NotInitializedErr), g, []))
   \<and> (initialized g \<longrightarrow>
        Close g stack None = (Returned None, g\<lparr>initialized := False\<rparr>, closing g)
      \<and> (\<forall>stack' c s. call (g\<lparr>initialized := False\<rparr>) stack' c s
            = (Returned (), [LogPrint NotInitializedErr])))
   \<and> (initialized g \<and> reachable g \<longrightarrow>
        Close g stack (Some v)
          = (Panicked v, g\<lparr>initialized := False\<rparr>,
             snd (Log g stack LogLevelCritical v) @ closing g)
      \<and> fst (Log g stack LogLevelCritical v) = Returned ())"
proof -
  have a: "Close g stack r = (Returned (Some NotInitializedErr), g, [])" if "\<not> initialized g"
    using that by (simp add: Close_def)
  have b: "Close g stack None = (Returned None, g\<lparr>initialized := False\<rparr>, closing g)"
    if "initialized g"
    using that by (simp add: Close_def closing_def Let_def)
  have c: "call (g\<lparr>initialized := False\<rparr>) stack' c s = (Returned (), [LogPrint NotInitializedErr])"
    for stack' c s
    by (rule call_uninitialized) simp
  have d: "Close g stack (Some v)
          = (Panicked v, g\<lparr>initialized := False\<rparr>,
             snd (Log g stack LogLevelCritical v) @ closing g)
      \<and> fst (Log g stack LogLevelCritical v) = Returned ()"
    if "initialized g" "reachable g"
  proof -
    from that obtain w where w: "write_var g = Some w"
      using reachable_write by blast
    have "fst (call g stack (Log_call LogLevelCritical) v) = Returned ()"
      using call_initialized [OF that(1) w, of "Log_call LogLevelCritical" stack v] by simp
    then have l: "fst (Log g stack LogLevelCritical v) = Returned ()"
      by simp
    then obtain es where "Log g stack LogLevelCritical v = (Returned (), es)"
      by (cases "Log g stack LogLevelCritical v") simp
    then show ?thesis
      using that(1) by (simp add: Close_def closing_def Let_def)
  qed
  show ?thesis
    using a b c d by blast
qed

theorem Close_behaviour_witness:
  "\<not> initialized process_start
   \<and> Close process_start ''stack'' None = (Returned (Some NotInitializedErr), process_start, [])
   \<and> initialized (snd (Init process_start (ClosableSink 0) LogLevelTrace LogLevelTrace LogLevelCritical False))
   \<and> reachable (snd (Init process_start (ClosableSink 0) LogLevelTrace LogLevelTrace LogLevelCritical False))
   \<and> Close (snd (Init process_start (ClosableSink 0) LogLevelTrace LogLevelTrace LogLevelCritical False))
        ''stack'' None
      = (Returned None,
         (snd (Init process_start (ClosableSink 0) LogLevelTrace LogLevelTrace LogLevelCritical False))
           \<lparr>initialized := False\<rparr>,
         [CloserClose (ClosableSink 0)])
   \<and> call ((snd (Init process_start (ClosableSink 0) LogLevelTrace LogLevelTrace LogLevelCritical False))
           \<lparr>initialized := False\<rparr>) ''stack'' Info_call ''x''
      = (Returned (), [LogPrint NotInitializedErr])
   \<and> fst (Close (snd (Init process_start (ClosableSink 0) LogLevelTrace LogLevelTrace LogLevelCritical False))
          ''stack'' (Some ''boom'')) = Panicked ''boom''"
proof -
  let ?g = "snd (Init process_start (ClosableSink 0) LogLevelTrace LogLevelTrace LogLevelCritical False)"
  have p: "\<not> initialized process_start"
    by (simp add: process_start_def)
  have i: "initialized ?g"
    by (rule Init_initialized)
  have r: "reachable ?g"
    by (rule reachable_Init_start)
  have c: "closing ?g = [CloserClose (ClosableSink 0)]"
    using p by (simp add: closing_def Init_fresh)
  show ?thesis
    using p i r c Close_behaviour [of process_start "''stack''" None "''boom''"]
      Close_behaviour [of ?g "''stack''" None "''boom''"]
    by (simp del: call.simps)
qed

text \<open>
  C8, as stated: every call to \<open>Critical\<close> or \<open>Criticalf\<close> ends the process. This fails
  before \<open>Init\<close> (and after \<open>Close\<close>): like every emit function they test \<open>initialized\<close>
  first, print the fallback notice and return.
\<close>

theorem Critical_returns_counterexample:
  "\<not> initialized process_start
   \<and> call process_start ''stack'' Critical_call ''x'' = (Returned (), [LogPrint NotInitializedErr])
   \<and> call process_start ''stack'' Criticalf_call ''x'' = (Returned (), [LogPrint NotInitializedErr])"
  by (simp add: process_start_def Critical_def Criticalf_def not_initialized_def)

text \<open>
  C8, amended. In every state a run can reach, an emit call ends the process if and only
  if it is \<open>Critical\<close> or \<open>Criticalf\<close> and the logger is initialized; the exit status is 1
  and the exit comes after the emission, the message line if the level has a logger and
  the stack dump if the level is at or above the stack level. Called while not
  initialized they print the fallback notice and return. No other emit call, \<open>Log\<close> at
  \<open>LogLevelCritical\<close> included, and no \<open>Close\<close> ends the process. (\<open>Init\<close>,
  \<open>GetLogLevel\<close>, \<open>MultiWriter\<close> and \<open>Write\<close> hold no call of \<open>os.Exit\<close>; they are
  functions that return here.)
\<close>

theorem exit_only_Critical:
  assumes "reachable g"
  shows "(fst (call g stack c s) = Exited n \<longleftrightarrow> is_Critical c \<and> initialized g \<and> n = 1)
    \<and> (is_Critical c \<and> initialized g \<longrightarrow>
         (\<exists>w. write_var g = Some w
            \<and> snd (call g stack c s) =
                (case lCritical g of None \<Rightarrow> [] | Some l \<Rightarrow> [LoggerOutput l s])
                @ (if LogLevelCritical \<ge> logStack g then [Fprintln w stack] else [])))
    \<and> (\<not> initialized g \<longrightarrow> call g stack c s = (Returned (), [LogPrint NotInitializedErr]))
    \<and> fst (Close g stack r) \<noteq> Exited n"
proof -
  have crit: "level_of c = LogLevelCritical \<and> \<not> is_generic c" if "is_Critical c"
    using that by (cases c) simp_all
  have lc: "logger_of g LogLevelCritical = lCritical g"
    by (simp add: logger_of_def getLogger_def)
  have a: "fst (call g stack c s) = Exited n \<longleftrightarrow> is_Critical c \<and> initialized g \<and> n = 1"
  proof (cases "initialized g")
    case False
    then show ?thesis by (simp add: call_uninitialized)
  next
    case True
    with assms obtain w where w: "write_var g = Some w"
      using reachable_write by blast
    show ?thesis
    proof (cases "level_of c \<le> LogLevelCritical")
      case valid: True
      show ?thesis
        using True call_initialized [OF True w valid, of stack s] by auto
    next
      case False
      then have above: "level_of c > LogLevelCritical" by simp
      have gen: "is_generic c"
      proof (rule ccontr)
        assume "\<not> is_generic c"
        then have "level_of c \<le> LogLevelCritical" by (rule level_of_convenience)
        with False show False by simp
      qed
      then have "\<not> is_Critical c" by (cases c) simp_all
      then show ?thesis
        using call_invalid_level [OF True gen above, of stack s] by simp
    qed
  qed
  have b: "\<exists>w. write_var g = Some w
            \<and> snd (call g stack c s) =
                (case lCritical g of None \<Rightarrow> [] | Some l \<Rightarrow> [LoggerOutput l s])
                @ (if LogLevelCritical \<ge> logStack g then [Fprintln w stack] else [])"
    if "is_Critical c" "initialized g"
  proof -
    from assms that(2) obtain w where w: "write_var g = Some w"
      using reachable_write by blast
    from crit [OF that(1)] have l: "level_of c = LogLevelCritical" by simp
    then have "level_of c \<le> LogLevelCritical" by simp
    from call_initialized [OF that(2) w this, of stack s] l lc w show ?thesis
      by simp
  qed
  show ?thesis
    using a b call_uninitialized [of g stack c s] Close_not_Exited [of g stack r n] by blast
qed

theorem exit_only_Critical_witness:
  "reachable (snd (Init process_start (Sink 0) LogLevelInfo LogLevelWarning LogLevelError False))
   \<and> call (snd (Init process_start (Sink 0) LogLevelInfo LogLevelWarning LogLevelError False))
        ''stack'' Critical_call ''x''
      = (Exited 1,
         [LoggerOutput \<lparr>l_out = IoMultiWriter [Stdout, Sink 0], l_prefix = ''FATAL|'', l_flags = 3\<rparr> ''x'',
          Fprintln (Sink 0) ''stack''])
   \<and> fst (call (snd (Init process_start (Sink 0) LogLevelInfo LogLevelWarning LogLevelError False))
        ''stack'' (Log_call LogLevelCritical) ''x'') \<noteq> Exited 1
   \<and> fst (Close (snd (Init process_start (Sink 0) LogLevelInfo LogLevelWarning LogLevelError False))
        ''stack'' (Some ''boom'')) \<noteq> Exited 1"
proof -
  let ?g = "snd (Init process_start (Sink 0) LogLevelInfo LogLevelWarning LogLevelError False)"
  have r: "reachable ?g"
    by (rule reachable_Init_start)
  have p: "\<not> initialized process_start"
    by (simp add: process_start_def)
  have i: "initialized ?g"
    by (rule Init_initialized)
  have v: "lCritical ?g
      = Some \<lparr>l_out = IoMultiWriter [Stdout, Sink 0], l_prefix = ''FATAL|'', l_flags = 3\<rparr>"
    "write_var ?g = Some (Sink 0)" "logStack ?g = LogLevelError"
    using p by (simp_all add: Init_fresh newLogger_def io_MultiWriter_def getLogPrefix_def
        flags_of_def LstdFlags_def word_le_nat_alt)
  show ?thesis
    using r i v exit_only_Critical [OF r, of "''stack''" Critical_call "''x''" 1 "Some ''boom''"]
      exit_only_Critical [OF r, of "''stack''" "Log_call LogLevelCritical" "''x''" 1 "Some ''boom''"]
    by (simp add: prod_eq_iff word_le_nat_alt)
qed

text \<open>
  C9. \<open>GetLogLevel\<close> maps \<open>trace\<close> to Trace, \<open>info\<close> and \<open>information\<close> to Info,
  \<open>warning\<close> and \<open>warn\<close> to Warning, \<open>error\<close> to Error and \<open>fatal\<close> to Critical,
  with no diagnostic; every other string, a differently cased one included, gives Trace
  and one \<open>log.Println("Invalid LogLevel", str)\<close>.
\<close>

theorem GetLogLevel_table:
  "GetLogLevel ''trace'' = (LogLevelTrace, [])
   \<and> GetLogLevel ''info'' = (LogLevelInfo, [])
   \<and> GetLogLevel ''information'' = (LogLevelInfo, [])
   \<and> GetLogLevel ''warning'' = (LogLevelWarning, [])
   \<and> GetLogLevel ''warn'' = (LogLevelWarning, [])
   \<and> GetLogLevel ''error'' = (LogLevelError, [])
   \<and> GetLogLevel ''fatal'' = (LogLevelCritical, [])
   \<and> (str \<notin> {''trace'', ''info'', ''information'', ''warning'', ''warn'', ''error'', ''fatal''}
        \<longrightarrow> GetLogLevel str = (LogLevelTrace, [LogPrintln [''Invalid LogLevel'', str]]))"
  by (simp add: GetLogLevel_def)

theorem GetLogLevel_table_witness:
  "''bogus'' \<notin> {''trace'', ''info'', ''information'', ''warning'', ''warn'', ''error'', ''fatal''}
   \<and> GetLogLevel ''bogus'' = (LogLevelTrace, [LogPrintln [''Invalid LogLevel'', ''bogus'']])
   \<and> ''Warn'' \<notin> {''trace'', ''info'', ''information'', ''warning'', ''warn'', ''error'', ''fatal''}
   \<and> GetLogLevel ''Warn'' = (LogLevelTrace, [LogPrintln [''Invalid LogLevel'', ''Warn'']])
   \<and> GetLogLevel ''warn'' = (LogLevelWarning, [])"
  using GetLogLevel_table [of "''bogus''"] GetLogLevel_table [of "''Warn''"]
  by simp

text \<open>
  C10. Once the logger is initialized, \<open>Log\<close> and \<open>Logf\<close> with a level above
  \<open>LogLevelCritical\<close> panic in \<open>getLogger\<close>, with the text \<open>Invalid log level\<close> and the
  number, before any output. In every state a run can reach this is the only panic of an
  emit call: the ten functions named after a level never panic, and neither do \<open>Log\<close>
  and \<open>Logf\<close> at one of the five levels.
\<close>

theorem generic_invalid_level_panics:
  assumes "reachable g"
  shows "(initialized g \<and> level > LogLevelCritical \<longrightarrow>
            Log g stack level s = (Panicked (''Invalid log level '' @ decimal (unat level)), [])
          \<and> Logf g stack level s = (Panicked (''Invalid log level '' @ decimal (unat level)), []))
    \<and> (fst (call g stack c s) = Panicked v \<longleftrightarrow>
         initialized g \<and> is_generic c \<and> level_of c > LogLevelCritical
         \<and> v = ''Invalid log level '' @ decimal (unat (level_of c)))"
proof -
  have a: "Log g stack level s = (Panicked (''Invalid log level '' @ decimal (unat level)), [])
      \<and> Logf g stack level s = (Panicked (''Invalid log level '' @ decimal (unat level)), [])"
    if "initialized g" "level > LogLevelCritical"
    using that by (simp add: Log_def Logf_def getLogger_invalid)
  have b: "fst (call g stack c s) = Panicked v \<longleftrightarrow>
         initialized g \<and> is_generic c \<and> level_of c > LogLevelCritical
         \<and> v = ''Invalid log level '' @ decimal (unat (level_of c))"
  proof (cases "initialized g")
    case False
    then show ?thesis by (simp add: call_uninitialized)
  next
    case True
    with assms obtain w where w: "write_var g = Some w"
      using reachable_write by blast
    show ?thesis
    proof (cases "level_of c \<le> LogLevelCritical")
      case valid: True
      then have "\<not> level_of c > LogLevelCritical" by simp
      then show ?thesis
        using call_initialized [OF True w valid, of stack s] by auto
    next
      case False
      then have above: "level_of c > LogLevelCritical" by simp
      have gen: "is_generic c"
      proof (rule ccontr)
        assume "\<not> is_generic c"
        then have "level_of c \<le> LogLevelCritical" by (rule level_of_convenience)
        with False show False by simp
      qed
      show ?thesis
        using True gen above call_invalid_level [OF True gen above, of stack s] by auto
    qed
  qed
  show ?thesis using a b by blast
qed

theorem generic_invalid_level_panics_witness:
  "reachable (snd (Init process_start (Sink 0) LogLevelTrace LogLevelTrace LogLevelTrace False))
   \<and> initialized (snd (Init process_start (Sink 0) LogLevelTrace LogLevelTrace LogLevelTrace False))
   \<and> (7::LogLevel) > LogLevelCritical
   \<and> Log (snd (Init process_start (Sink 0) LogLevelTrace LogLevelTrace LogLevelTrace False))
        ''stack'' 7 ''x'' = (Panicked ''Invalid log level 7'', [])
   \<and> Logf (snd (Init process_start (Sink 0) LogLevelTrace LogLevelTrace LogLevelTrace False))
        ''stack'' 255 ''x'' = (Panicked ''Invalid log level 255'', [])
   \<and> fst (call (snd (Init process_start (Sink 0) LogLevelTrace LogLevelTrace LogLevelTrace False))
        ''stack'' Error_call ''x'') \<noteq> Panicked ''Invalid log level 3''"
proof -
  let ?g = "snd (Init process_start (Sink 0) LogLevelTrace LogLevelTrace LogLevelTrace False)"
  have r: "reachable ?g"
    by (rule reachable_Init_start)
  have i: "initialized ?g"
    by (rule Init_initialized)
  have d: "decimal 7 = ''7''" "decimal 255 = ''255''"
    by code_simp+
  show ?thesis
    using r i generic_invalid_level_panics [OF r, of 7 "''stack''" "''x''" Error_call "''Invalid log level 3''"]
      generic_invalid_level_panics [OF r, of 255 "''stack''" "''x''" Error_call "''Invalid log level 3''"]
    by (simp add: d)
qed

end
